theory Spec2Isabelle
  imports Main "HOL-Library.Word"
begin

section \<open>The reference-counted buffer registry of \<open>mali_gralloc_reference.cpp\<close>\<close>

text \<open>
  A shallow embedding of \<open>class BufferManager\<close>. The target is taken to be LP64:
  \<open>uint64_t\<close>, \<open>size_t\<close>, \<open>void *\<close> and \<open>off_t\<close> are 64 bits wide, so the casts
  between \<open>uint64_t\<close> and \<open>void *\<close> are the identity and a null pointer is the word \<open>0\<close>.
  A C array of fixed size \<open>N\<close> is a function from indices, of which the code only ever
  touches the indices below \<open>N\<close>. Return codes (\<open>int\<close>) and descriptors are \<open>int\<close>.
  The registry mutex makes every public operation atomic; an operation is a function
  from the state before to the result and the state after. The \<open>MALI_GRALLOC_LOGE\<close>
  lines change no state and are left out; a branch that only logs (a count found at 0
  in \<open>retain\<close> and \<open>map_locked\<close>) falls through as in the source.
\<close>

subsection \<open>Data\<close>

type_synonym addr = nat

text \<open>
  Modelled from the spec: \<open>private_handle_t\<close> is declared in \<open>mali_gralloc_buffer.h\<close>,
  which is not part of the sources at hand. The record has the fields this file reads or
  writes (the spec's handle contract: \<open>fds\<close>, \<open>fd_count\<close>, \<open>alloc_sizes\<close>, \<open>attr_size\<close>
  and the scratch slots \<open>bases\<close>, \<open>attr_base\<close>); \<open>opaque\<close> stands for every other
  field (magic, version, counts), which this file never touches.
\<close>

record private_handle_t =
  fds :: "nat \<Rightarrow> int"
  fd_count :: int
  alloc_sizes :: "nat \<Rightarrow> 64 word"
  attr_size :: "64 word"
  bases :: "nat \<Rightarrow> 64 word"
  attr_base :: "64 word"
  opaque :: nat

text \<open>\<open>struct MappedData\<close>; its default member initialisers zero everything.\<close>

record MappedData =
  data_bases :: "nat \<Rightarrow> 64 word"
  data_alloc_sizes :: "nat \<Rightarrow> 64 word"
  ref_count :: "64 word"

definition MappedData_default :: MappedData where
  "MappedData_default =
     \<lparr>data_bases = (\<lambda>_. 0), data_alloc_sizes = (\<lambda>_. 0), ref_count = 0\<rparr>"

text \<open>
  What lies outside this file and is taken as a parameter: the three constants, the
  handle's own \<open>private_handle_t::validate\<close> and \<open>get_share_attr_fd\<close>, and the
  external mapper \<open>mali_gralloc_ion_map\<close> / \<open>mali_gralloc_ion_unmap\<close>, which receive
  the handle and may rewrite it.
\<close>

record extern =
  MAX_FDS :: nat
  MAX_BUFFER_FDS :: nat
  PAGE_SIZE :: int
  private_handle_validate :: "private_handle_t \<Rightarrow> int"
  get_share_attr_fd :: "private_handle_t \<Rightarrow> int"
  mali_gralloc_ion_map :: "private_handle_t \<Rightarrow> int \<times> private_handle_t"
  mali_gralloc_ion_unmap :: "private_handle_t \<Rightarrow> private_handle_t"

text \<open>An open file description as \<open>lseek\<close> sees it: the current offset and the length.\<close>

record os_file =
  file_pos :: nat
  file_len :: nat

text \<open>The calls that leave this file, in the order they are made.\<close>

datatype ext_call = IonMap addr | IonUnmap addr | Munmap "64 word" "64 word"

text \<open>
  The state: the memory holding the handles (by address), the registry table
  \<open>buffer_map\<close> keyed by the handle's address, the descriptors of the process, and the
  log of external calls.
\<close>

record state =
  handles :: "addr \<Rightarrow> private_handle_t"
  buffer_map :: "addr \<rightharpoonup> MappedData"
  files :: "int \<rightharpoonup> os_file"
  calls :: "ext_call list"

definition EINVAL :: int where
  "EINVAL = 22"

subsection \<open>\<open>get_buffer_size\<close>\<close>

datatype whence = SEEK_SET | SEEK_CUR | SEEK_END

text \<open>
  \<open>lseek\<close> of the C library: \<open>-1\<close> on a descriptor that is not open (or cannot seek)
  and on a negative resulting offset; otherwise it moves the offset and returns it.
\<close>

definition lseek :: "(int \<rightharpoonup> os_file) \<Rightarrow> int \<Rightarrow> int \<Rightarrow> whence \<Rightarrow> int \<times> (int \<rightharpoonup> os_file)" where
  "lseek fs fd offset w =
     (case fs fd of
        None \<Rightarrow> (- 1, fs)
      | Some f \<Rightarrow>
          (let new = (case w of SEEK_SET \<Rightarrow> offset
                              | SEEK_CUR \<Rightarrow> int (file_pos f) + offset
                              | SEEK_END \<Rightarrow> int (file_len f) + offset)
           in if new < 0 then (- 1, fs)
              else (new, fs(fd \<mapsto> f\<lparr>file_pos := nat new\<rparr>))))"

text \<open>
  The parameter is declared \<open>unsigned int\<close> and handed to \<open>lseek\<close> as \<open>int\<close> again; the
  two conversions cancel.
\<close>

definition get_buffer_size :: "(int \<rightharpoonup> os_file) \<Rightarrow> int \<Rightarrow> int \<times> (int \<rightharpoonup> os_file)" where
  "get_buffer_size fs fd =
     (let (current, fs1) = lseek fs fd 0 SEEK_CUR;
          (size, fs2) = lseek fs1 fd 0 SEEK_END;
          (_, fs3) = lseek fs2 fd current SEEK_SET
      in (size, fs3))"

subsection \<open>\<open>dmabuf_sanity_check\<close>\<close>

text \<open>\<open>std::find(first, lst, v) - base\<close> on an array: the first index in
  \<open>[first, lst)\<close> holding \<open>v\<close>, or \<open>lst\<close>.\<close>

function std_find :: "(nat \<Rightarrow> int) \<Rightarrow> nat \<Rightarrow> nat \<Rightarrow> int \<Rightarrow> nat" where
  "std_find a first lst v =
     (if first < lst then (if a first = v then first else std_find a (first + 1) lst v)
      else lst)"
  by pat_completeness auto
termination
  by (relation "measure (\<lambda>(a, first, lst, v). lst - first)") auto

declare std_find.simps [simp del]

text \<open>
  The lambda \<open>check_pid\<close>. \<open>(off_t)allocated_size\<close> reinterprets the 64 bits as signed,
  and the subtraction is the signed 64-bit one: \<open>size_padding\<close> is the signed reading of
  the word difference.
\<close>

definition check_pid :: "extern \<Rightarrow> (int \<rightharpoonup> os_file) \<Rightarrow> int \<Rightarrow> 64 word \<Rightarrow> bool \<times> (int \<rightharpoonup> os_file)" where
  "check_pid env fs fd allocated_size =
     (let (size, fs1) = get_buffer_size fs fd;
          size_padding = sint ((word_of_int size :: 64 word) - allocated_size)
      in if size \<noteq> - 1 \<and> (size_padding < 0 \<or> size_padding > PAGE_SIZE env)
         then (False, fs1)
         else (True, fs1))"

text \<open>The loop over the client facing dmabufs: \<open>False\<close> is the early \<open>return false\<close>.\<close>

function check_client_fds :: "extern \<Rightarrow> private_handle_t \<Rightarrow> nat \<Rightarrow> (int \<rightharpoonup> os_file) \<Rightarrow> bool \<times> (int \<rightharpoonup> os_file)" where
  "check_client_fds env hnd i fs =
     (if int i < fd_count hnd
      then (if \<not> fst (check_pid env fs (fds hnd i) (alloc_sizes hnd i))
            then (False, snd (check_pid env fs (fds hnd i) (alloc_sizes hnd i)))
            else check_client_fds env hnd (i + 1)
                   (snd (check_pid env fs (fds hnd i) (alloc_sizes hnd i))))
      else (True, fs))"
  by pat_completeness auto
termination
  by (relation "measure (\<lambda>(env, hnd, i, fs). nat (fd_count hnd) - i)") auto

declare check_client_fds.simps [simp del]

definition dmabuf_sanity_check :: "extern \<Rightarrow> state \<Rightarrow> addr \<Rightarrow> bool \<times> state" where
  "dmabuf_sanity_check env s handle =
     (let hnd = handles s handle;
          valid_fd_count = int (std_find (fds hnd) 0 (MAX_FDS env) (- 1))
      in if fd_count hnd \<noteq> valid_fd_count - 1 then (False, s)
         else
           (let (ok, fs1) = check_client_fds env hnd 0 (files s)
            in if \<not> ok then (False, s\<lparr>files := fs1\<rparr>)
               else
                 (let (ok_meta, fs2) = check_pid env fs1 (get_share_attr_fd env hnd) (attr_size hnd)
                  in if \<not> ok_meta then (False, s\<lparr>files := fs2\<rparr>)
                     else (True, s\<lparr>files := fs2\<rparr>))))"

subsection \<open>\<open>map_locked\<close>\<close>

text \<open>The loop that caches the mapper's addresses and the sizes in the record.\<close>

function copy_bases :: "extern \<Rightarrow> private_handle_t \<Rightarrow> nat \<Rightarrow> MappedData \<Rightarrow> MappedData" where
  "copy_bases env hnd i data =
     (if i < MAX_BUFFER_FDS env
      then copy_bases env hnd (i + 1)
             (data\<lparr>data_bases := (data_bases data)(i := bases hnd i),
                   data_alloc_sizes := (data_alloc_sizes data)(i := alloc_sizes hnd i)\<rparr>)
      else data)"
  by pat_completeness auto
termination
  by (relation "measure (\<lambda>(env, hnd, i, data). MAX_BUFFER_FDS env - i)") auto

declare copy_bases.simps [simp del]

definition map_locked :: "extern \<Rightarrow> state \<Rightarrow> addr \<Rightarrow> int \<times> state" where
  "map_locked env s handle =
     (case buffer_map s handle of
        None \<Rightarrow> (- EINVAL, s)
      | Some data \<Rightarrow>
          if data_bases data 0 \<noteq> 0 then (0, s)
          else
            (let (ok, s1) = dmabuf_sanity_check env s handle
             in if \<not> ok then (- EINVAL, s1)
                else
                  (let (error, hnd') = mali_gralloc_ion_map env (handles s1 handle);
                       s2 = s1\<lparr>handles := (handles s1)(handle := hnd'),
                               calls := calls s1 @ [IonMap handle]\<rparr>
                   in if error \<noteq> 0 then (error, s2)
                      else (0, s2\<lparr>buffer_map :=
                                   (buffer_map s2)(handle \<mapsto> copy_bases env hnd' 0 data)\<rparr>))))"

subsection \<open>\<open>validate_locked\<close>\<close>

text \<open>The two loops of the validator; \<open>Some r\<close> is the early \<open>return r\<close>, \<open>None\<close> is
  the loop running to its end.\<close>

function validate_mapped :: "extern \<Rightarrow> MappedData \<Rightarrow> private_handle_t \<Rightarrow> nat \<Rightarrow> int option" where
  "validate_mapped env data hnd i =
     (if i < MAX_BUFFER_FDS env
      then (if data_bases data i \<noteq> bases hnd i \<or> data_alloc_sizes data i \<noteq> alloc_sizes hnd i
            then Some (- EINVAL)
            else validate_mapped env data hnd (i + 1))
      else None)"
  by pat_completeness auto
termination
  by (relation "measure (\<lambda>(env, data, hnd, i). MAX_BUFFER_FDS env - i)") auto

declare validate_mapped.simps [simp del]

function validate_unmapped :: "extern \<Rightarrow> MappedData \<Rightarrow> private_handle_t \<Rightarrow> nat \<Rightarrow> int option" where
  "validate_unmapped env data hnd i =
     (if i < MAX_BUFFER_FDS env
      then (if bases hnd i \<noteq> 0 \<or> data_bases data i \<noteq> 0
            then Some (- EINVAL)
            else validate_unmapped env data hnd (i + 1))
      else None)"
  by pat_completeness auto
termination
  by (relation "measure (\<lambda>(env, data, hnd, i). MAX_BUFFER_FDS env - i)") auto

declare validate_unmapped.simps [simp del]

definition validate_locked :: "extern \<Rightarrow> state \<Rightarrow> addr \<Rightarrow> int \<times> state" where
  "validate_locked env s handle =
     (if private_handle_validate env (handles s handle) < 0 then (- EINVAL, s)
      else
        (case buffer_map s handle of
           None \<Rightarrow> (- EINVAL, s)
         | Some data \<Rightarrow>
             (case (if data_bases data 0 \<noteq> 0
                    then validate_mapped env data (handles s handle) 0
                    else validate_unmapped env data (handles s handle) 0) of
                Some r \<Rightarrow> (r, s)
              | None \<Rightarrow> (0, s))))"

subsection \<open>The public operations\<close>

text \<open>\<open>std::map::insert\<close>: the table after, and whether the key was new.\<close>

definition map_insert :: "(addr \<rightharpoonup> MappedData) \<Rightarrow> addr \<Rightarrow> MappedData \<Rightarrow> (addr \<rightharpoonup> MappedData) \<times> bool" where
  "map_insert m k v = (case m k of None \<Rightarrow> (m(k \<mapsto> v), True) | Some _ \<Rightarrow> (m, False))"

function zero_bases :: "extern \<Rightarrow> nat \<Rightarrow> private_handle_t \<Rightarrow> private_handle_t" where
  "zero_bases env i hnd =
     (if i < MAX_BUFFER_FDS env
      then zero_bases env (i + 1) (hnd\<lparr>bases := (bases hnd)(i := 0)\<rparr>)
      else hnd)"
  by pat_completeness auto
termination
  by (relation "measure (\<lambda>(env, i, hnd). MAX_BUFFER_FDS env - i)") auto

declare zero_bases.simps [simp del]

text \<open>The last two lines of \<open>retain\<close>: \<open>data.ref_count++\<close> on the record \<open>data\<close> that
  \<open>it\<close> points to (the one found, or the one just inserted).\<close>

definition increment_ref_count :: "state \<Rightarrow> addr \<Rightarrow> MappedData \<Rightarrow> int \<times> state" where
  "increment_ref_count s handle data =
     (0, s\<lparr>buffer_map := (buffer_map s)(handle \<mapsto> data\<lparr>ref_count := ref_count data + 1\<rparr>)\<rparr>)"

definition retain :: "extern \<Rightarrow> state \<Rightarrow> addr \<Rightarrow> int \<times> state" where
  "retain env s handle =
     (if private_handle_validate env (handles s handle) < 0 then (- EINVAL, s)
      else
        (case buffer_map s handle of
           None \<Rightarrow>
             (let (m, success) = map_insert (buffer_map s) handle MappedData_default
              in if \<not> success then (- EINVAL, s\<lparr>buffer_map := m\<rparr>)
                 else increment_ref_count
                        (s\<lparr>buffer_map := m,
                           handles := (handles s)(handle := zero_bases env 0 (handles s handle))\<rparr>)
                        handle MappedData_default)
         | Some data \<Rightarrow> increment_ref_count s handle data))"

text \<open>\<open>BufferManager::map\<close> (named \<open>map_handle\<close> here, \<open>map\<close> being the list functional).\<close>

definition map_handle :: "extern \<Rightarrow> state \<Rightarrow> addr \<Rightarrow> int \<times> state" where
  "map_handle env s handle =
     (let (error, s1) = validate_locked env s handle
      in if error \<noteq> 0 then (error, s1) else map_locked env s1 handle)"

definition release :: "extern \<Rightarrow> state \<Rightarrow> addr \<Rightarrow> int \<times> state" where
  "release env s handle =
     (let (error, s1) = validate_locked env s handle
      in if error \<noteq> 0 then (error, s1)
         else
           (case buffer_map s1 handle of
              None \<Rightarrow> (- EINVAL, s1)
            | Some data \<Rightarrow>
                if ref_count data = 0 then (- EINVAL, s1)
                else
                  (let data1 = data\<lparr>ref_count := ref_count data - 1\<rparr>
                   in if ref_count data1 = 0
                      then
                        (let s2 = (if data_bases data1 0 \<noteq> 0
                                   then s1\<lparr>handles := (handles s1)
                                               (handle := mali_gralloc_ion_unmap env (handles s1 handle)),
                                           calls := calls s1 @ [IonUnmap handle]\<rparr>
                                   else s1);
                             hnd = handles s2 handle;
                             s3 = (if attr_base hnd \<noteq> 0
                                   then s2\<lparr>handles := (handles s2)(handle := hnd\<lparr>attr_base := 0\<rparr>),
                                           calls := calls s2 @ [Munmap (attr_base hnd) (attr_size hnd)]\<rparr>
                                   else s2)
                         in (0, s3\<lparr>buffer_map := (buffer_map s3)(handle := None)\<rparr>))
                      else (0, s1\<lparr>buffer_map := (buffer_map s1)(handle \<mapsto> data1)\<rparr>))))"

definition validate :: "extern \<Rightarrow> state \<Rightarrow> addr \<Rightarrow> int \<times> state" where
  "validate env s handle = validate_locked env s handle"

subsection \<open>Sequences of calls\<close>

text \<open>The four exported functions \<open>mali_gralloc_reference_retain\<close>, \<open>_map\<close>, \<open>_release\<close>
  and \<open>_validate\<close>, each on the singleton registry, and a client calling them in turn.\<close>

datatype api_call = Retain addr | Map addr | Release addr | Validate addr

fun mali_gralloc_reference :: "extern \<Rightarrow> state \<Rightarrow> api_call \<Rightarrow> int \<times> state" where
  "mali_gralloc_reference env s (Retain handle) = retain env s handle"
| "mali_gralloc_reference env s (Map handle) = map_handle env s handle"
| "mali_gralloc_reference env s (Release handle) = release env s handle"
| "mali_gralloc_reference env s (Validate handle) = validate env s handle"

text \<open>Running a sequence of calls: the results in order, and the final state.\<close>

fun run :: "extern \<Rightarrow> state \<Rightarrow> api_call list \<Rightarrow> int list \<times> state" where
  "run env s [] = ([], s)"
| "run env s (c # cs) =
     (let (r, s1) = mali_gralloc_reference env s c;
          (rs, s2) = run env s1 cs
      in (r # rs, s2))"

text \<open>How many of the calls \<open>cs\<close>, with results \<open>rs\<close>, were the call \<open>c\<close> and succeeded.\<close>

definition successful :: "api_call \<Rightarrow> api_call list \<Rightarrow> int list \<Rightarrow> nat" where
  "successful c cs rs = length (filter (\<lambda>(c', r). c' = c \<and> r = 0) (zip cs rs))"

subsection \<open>The statements under test, and an example to run them on\<close>

text \<open>The length the operating system reports for a descriptor: \<open>-1\<close> where the query
  fails.\<close>

definition os_length :: "(int \<rightharpoonup> os_file) \<Rightarrow> int \<Rightarrow> int" where
  "os_length fs fd = (case fs fd of None \<Rightarrow> - 1 | Some f \<Rightarrow> int (file_len f))"

text \<open>The length condition of the specification: the length is unknown, or lies between
  the advertised size and that size plus one page.\<close>

definition length_within_page :: "extern \<Rightarrow> int \<Rightarrow> 64 word \<Rightarrow> bool" where
  "length_within_page env len allocated_size \<longleftrightarrow>
     len = - 1 \<or> (uint allocated_size \<le> len \<and> len \<le> uint allocated_size + PAGE_SIZE env)"

text \<open>The sanity check as the specification words it: the count of the entries of \<open>fds\<close>
  that are not the sentinel is \<open>fd_count + 1\<close>, and the length condition holds for every
  client facing descriptor and for the metadata descriptor.\<close>

definition sanity_claimed :: "extern \<Rightarrow> (int \<rightharpoonup> os_file) \<Rightarrow> private_handle_t \<Rightarrow> bool" where
  "sanity_claimed env fs hnd \<longleftrightarrow>
     int (length (filter (\<lambda>fd. fd \<noteq> - 1) (map (fds hnd) [0..<MAX_FDS env]))) = fd_count hnd + 1 \<and>
     (\<forall>i < nat (fd_count hnd). length_within_page env (os_length fs (fds hnd i)) (alloc_sizes hnd i)) \<and>
     length_within_page env (os_length fs (get_share_attr_fd env hnd)) (attr_size hnd)"

text \<open>The same with the count read as the code reads it: the length of the prefix of
  \<open>fds\<close> before the first sentinel.\<close>

definition sanity_amended :: "extern \<Rightarrow> (int \<rightharpoonup> os_file) \<Rightarrow> private_handle_t \<Rightarrow> bool" where
  "sanity_amended env fs hnd \<longleftrightarrow>
     int (length (takeWhile (\<lambda>fd. fd \<noteq> - 1) (map (fds hnd) [0..<MAX_FDS env]))) = fd_count hnd + 1 \<and>
     (\<forall>i < nat (fd_count hnd). length_within_page env (os_length fs (fds hnd i)) (alloc_sizes hnd i)) \<and>
     length_within_page env (os_length fs (get_share_attr_fd env hnd)) (attr_size hnd)"

text \<open>
  An example: four descriptor slots, three regions, pages of 4096 bytes; a handle is
  well formed when its opaque part is \<open>1\<close>; the metadata descriptor is the one after the
  client facing ones; the mapper puts region 0 at address \<open>0x7000\<close>. The handle at
  address 7 has one region of 4096 bytes on descriptor 5, its metadata on descriptor 6,
  and a stale address in its first scratch slot. Every other address holds an ill-formed
  handle.
\<close>

definition example_env :: extern where
  "example_env =
     \<lparr>MAX_FDS = 4, MAX_BUFFER_FDS = 3, PAGE_SIZE = 4096,
      private_handle_validate = (\<lambda>h. if opaque h = 1 then 0 else - 22),
      get_share_attr_fd =
        (\<lambda>h. if fd_count h \<le> 0 \<or> 4 \<le> fd_count h then - 1 else fds h (nat (fd_count h))),
      mali_gralloc_ion_map = (\<lambda>h. (0, h\<lparr>bases := (bases h)(0 := 28672)\<rparr>)),
      mali_gralloc_ion_unmap = (\<lambda>h. h\<lparr>bases := (\<lambda>_. 0)\<rparr>)\<rparr>"

definition example_handle :: private_handle_t where
  "example_handle =
     \<lparr>fds = (\<lambda>i. if i = 0 then 5 else if i = 1 then 6 else - 1), fd_count = 1,
      alloc_sizes = (\<lambda>i. if i = 0 then 4096 else 0), attr_size = 4096,
      bases = (\<lambda>i. if i = 0 then 57005 else 0), attr_base = 0, opaque = 1\<rparr>"

definition example_state :: state where
  "example_state =
     \<lparr>handles = (\<lambda>a. if a = 7 then example_handle else example_handle\<lparr>opaque := 0\<rparr>),
      buffer_map = Map.empty,
      files = [5 \<mapsto> \<lparr>file_pos = 0, file_len = 4096\<rparr>, 6 \<mapsto> \<lparr>file_pos = 16, file_len = 4096\<rparr>],
      calls = []\<rparr>"

text \<open>The same handle with a descriptor left behind the sentinel.\<close>

definition tail_handle :: private_handle_t where
  "tail_handle =
     example_handle\<lparr>fds := (\<lambda>i. if i = 0 then 5 else if i = 1 then 6 else if i = 2 then - 1 else 9)\<rparr>"

definition tail_state :: state where
  "tail_state = example_state\<lparr>handles := (\<lambda>_. tail_handle)\<rparr>"

text \<open>The example with the region's descriptor four pages long.\<close>

definition long_state :: state where
  "long_state =
     example_state\<lparr>files :=
       [5 \<mapsto> \<lparr>file_pos = 0, file_len = 16384\<rparr>, 6 \<mapsto> \<lparr>file_pos = 0, file_len = 4096\<rparr>]\<rparr>"

text \<open>The validator as the specification words it: in the mapped state only the regions
  in use (those below \<open>fd_count\<close>) have to agree with the record.\<close>

definition validator_claimed :: "extern \<Rightarrow> state \<Rightarrow> addr \<Rightarrow> bool" where
  "validator_claimed env s handle \<longleftrightarrow>
     0 \<le> private_handle_validate env (handles s handle) \<and>
     (case buffer_map s handle of
        None \<Rightarrow> False
      | Some data \<Rightarrow>
          if data_bases data 0 \<noteq> 0
          then (\<forall>i < MAX_BUFFER_FDS env. int i < fd_count (handles s handle) \<longrightarrow>
                  bases (handles s handle) i = data_bases data i \<and>
                  alloc_sizes (handles s handle) i = data_alloc_sizes data i)
          else (\<forall>i < MAX_BUFFER_FDS env. bases (handles s handle) i = 0 \<and> data_bases data i = 0))"

text \<open>The same with every slot below \<open>MAX_BUFFER_FDS\<close> compared, in use or not.\<close>

definition validator_amended :: "extern \<Rightarrow> state \<Rightarrow> addr \<Rightarrow> bool" where
  "validator_amended env s handle \<longleftrightarrow>
     0 \<le> private_handle_validate env (handles s handle) \<and>
     (case buffer_map s handle of
        None \<Rightarrow> False
      | Some data \<Rightarrow>
          if data_bases data 0 \<noteq> 0
          then (\<forall>i < MAX_BUFFER_FDS env.
                  bases (handles s handle) i = data_bases data i \<and>
                  alloc_sizes (handles s handle) i = data_alloc_sizes data i)
          else (\<forall>i < MAX_BUFFER_FDS env. bases (handles s handle) i = 0 \<and> data_bases data i = 0))"

text \<open>The example after \<open>retain\<close> of the handle at 7, and after \<open>map\<close> of it.\<close>

definition registered_state :: state where
  "registered_state =
     example_state\<lparr>handles := (handles example_state)(7 := example_handle\<lparr>bases := (\<lambda>_. 0)\<rparr>),
                   buffer_map := [7 \<mapsto> MappedData_default\<lparr>ref_count := 1\<rparr>]\<rparr>"

definition mapped_handle :: private_handle_t where
  "mapped_handle = example_handle\<lparr>bases := (\<lambda>i. if i = 0 then 28672 else 0)\<rparr>"

definition mapped_data :: MappedData where
  "mapped_data =
     \<lparr>data_bases = (\<lambda>i. if i = 0 then 28672 else 0),
      data_alloc_sizes = (\<lambda>i. if i = 0 then 4096 else 0), ref_count = 1\<rparr>"

definition mapped_state :: state where
  "mapped_state =
     example_state\<lparr>handles := (handles example_state)(7 := mapped_handle),
                   buffer_map := [7 \<mapsto> mapped_data], calls := [IonMap 7]\<rparr>"

text \<open>The mapped example after a client has overwritten the advertised size of region
  1, which the handle does not use.\<close>

definition resized_state :: state where
  "resized_state =
     mapped_state\<lparr>handles := (handles mapped_state)
       (7 := mapped_handle\<lparr>alloc_sizes := (\<lambda>i. if i = 0 then 4096 else 7)\<rparr>)\<rparr>"

text \<open>The registered example after a client has written to scratch slot 1.\<close>

definition scribbled_state :: state where
  "scribbled_state =
     registered_state\<lparr>handles := (handles registered_state)
       (7 := example_handle\<lparr>bases := (\<lambda>i. if i = 1 then 99 else 0)\<rparr>)\<rparr>"

text \<open>The registered example with a record whose count is 0, and with the region's
  descriptor four pages long.\<close>

definition zero_count_state :: state where
  "zero_count_state = registered_state\<lparr>buffer_map := [7 \<mapsto> MappedData_default]\<rparr>"

definition registered_long_state :: state where
  "registered_long_state = registered_state\<lparr>files := files long_state\<rparr>"

text \<open>The registered example with its metadata mapped by some other path, and after a
  second \<open>retain\<close>.\<close>

definition meta_state :: state where
  "meta_state =
     registered_state\<lparr>handles := (handles registered_state)
       (7 := example_handle\<lparr>bases := (\<lambda>_. 0), attr_base := 36864\<rparr>)\<rparr>"

definition twice_state :: state where
  "twice_state = registered_state\<lparr>buffer_map := [7 \<mapsto> MappedData_default\<lparr>ref_count := 2\<rparr>]\<rparr>"

text \<open>How often the external mapper was asked to map, in a log of calls.\<close>

definition ion_map_calls :: "ext_call list \<Rightarrow> nat" where
  "ion_map_calls cs = length (filter (\<lambda>c. case c of IonMap _ \<Rightarrow> True | _ \<Rightarrow> False) cs)"

text \<open>The reference count held for a handle, if it has a record; and the table holding
  \<open>n\<close> references for it: no record for \<open>n = 0\<close>, a record counting \<open>n\<close> otherwise.\<close>

definition refs :: "state \<Rightarrow> addr \<Rightarrow> 64 word option" where
  "refs s handle = map_option ref_count (buffer_map s handle)"

definition counted :: "state \<Rightarrow> addr \<Rightarrow> nat \<Rightarrow> bool" where
  "counted s handle n \<longleftrightarrow> refs s handle = (if n = 0 then None else Some (of_nat n))"

section \<open>Properties\<close>

subsection \<open>The length probe restores the descriptor\<close>

lemma get_buffer_size_os_length: "get_buffer_size fs fd = (os_length fs fd, fs)"
proof (cases "fs fd")
  case None
  then show ?thesis by (simp add: get_buffer_size_def lseek_def os_length_def)
next
  case (Some f)
  then show ?thesis
    by (simp add: get_buffer_size_def lseek_def Let_def fun_upd_idem os_length_def)
qed

lemma check_pid_eq:
  "check_pid env fs fd a =
     (\<not> (os_length fs fd \<noteq> - 1 \<and>
         (sint ((word_of_int (os_length fs fd) :: 64 word) - a) < 0 \<or>
          sint ((word_of_int (os_length fs fd) :: 64 word) - a) > PAGE_SIZE env)), fs)"
  by (simp add: check_pid_def get_buffer_size_os_length Let_def)

text \<open>Where neither the length nor the advertised size reaches \<open>2^63\<close>, the signed
  64-bit difference is the difference of the numbers.\<close>

lemma sint_size_padding:
  assumes "0 \<le> len" "len < 2 ^ 63" "uint (a :: 64 word) < 2 ^ 63"
  shows "sint ((word_of_int len :: 64 word) - a) = len - uint a"
proof -
  have "- (2 ^ 63) \<le> len - uint a" "len - uint a < 2 ^ 63"
    using assms uint_ge_0 [of a] by linarith+
  then have small: "signed_take_bit 63 (len - uint a) = len - uint a"
    by (rule signed_take_bit_int_eq_self)
  have "(word_of_int len :: 64 word) - a = word_of_int (len - uint a)"
    by (simp add: wi_hom_syms)
  then have "sint ((word_of_int len :: 64 word) - a) = sint (word_of_int (len - uint a) :: 64 word)"
    by (simp only:)
  also have "\<dots> = signed_take_bit 63 (len - uint a)"
    by (subst sint_sbintrunc') simp
  finally show ?thesis
    using small by (simp only:)
qed

lemma check_pid_within_page:
  assumes "\<forall>f. fs fd = Some f \<longrightarrow> file_len f < 2 ^ 63" "uint a < 2 ^ 63"
  shows "check_pid env fs fd a = (length_within_page env (os_length fs fd) a, fs)"
proof (cases "fs fd")
  case None
  then show ?thesis by (simp add: check_pid_eq os_length_def length_within_page_def)
next
  case (Some f)
  with assms(1) have "int (file_len f) < 2 ^ 63" by auto
  then have "sint ((word_of_int (int (file_len f)) :: 64 word) - a) = int (file_len f) - uint a"
    using assms(2) by (intro sint_size_padding) simp_all
  with Some show ?thesis
    by (auto simp: check_pid_eq os_length_def length_within_page_def)
qed

text \<open>The advertised size \<open>2^64 - 1\<close> is read as \<open>-1\<close>: an empty descriptor passes for it.\<close>

lemma check_pid_wraps:
  "check_pid example_env [5 \<mapsto> \<lparr>file_pos = 0, file_len = 0\<rparr>] 5 18446744073709551615 =
     (True, [5 \<mapsto> \<lparr>file_pos = 0, file_len = 0\<rparr>])"
  by (simp add: check_pid_eq os_length_def example_env_def)

subsection \<open>The loops of the sanity check\<close>

lemma std_find_takeWhile:
  "first \<le> lst \<Longrightarrow>
   std_find a first lst v = first + length (takeWhile (\<lambda>x. x \<noteq> v) (map a [first..<lst]))"
proof (induction a first lst v rule: std_find.induct)
  case (1 a first lst v)
  show ?case
  proof (cases "first < lst")
    case True
    then have u: "[first..<lst] = first # [first + 1..<lst]"
      by (simp add: upt_conv_Cons)
    show ?thesis
    proof (cases "a first = v")
      case True
      with \<open>first < lst\<close> u show ?thesis by (subst std_find.simps) simp
    next
      case False
      with \<open>first < lst\<close> have "std_find a (first + 1) lst v =
          first + 1 + length (takeWhile (\<lambda>x. x \<noteq> v) (map a [first + 1..<lst]))"
        using "1.IH" by simp
      with False \<open>first < lst\<close> u show ?thesis by (subst std_find.simps) simp
    qed
  next
    case False
    with "1.prems" show ?thesis by (subst std_find.simps) simp
  qed
qed

lemma check_client_fds_eq:
  "check_client_fds env hnd i fs =
     ((\<forall>j. i \<le> j \<and> int j < fd_count hnd \<longrightarrow>
           fst (check_pid env fs (fds hnd j) (alloc_sizes hnd j))), fs)"
proof (induction env hnd i fs rule: check_client_fds.induct)
  case (1 env hnd i fs)
  have snd_pid: "snd (check_pid env fs (fds hnd i) (alloc_sizes hnd i)) = fs"
    by (simp add: check_pid_eq)
  show ?case
  proof (cases "int i < fd_count hnd")
    case False
    then show ?thesis by (subst check_client_fds.simps) auto
  next
    case True
    show ?thesis
    proof (cases "fst (check_pid env fs (fds hnd i) (alloc_sizes hnd i))")
      case False
      with True show ?thesis by (subst check_client_fds.simps) (auto simp: snd_pid)
    next
      case ok: True
      have "check_client_fds env hnd (i + 1) fs =
            ((\<forall>j. i + 1 \<le> j \<and> int j < fd_count hnd \<longrightarrow>
                 fst (check_pid env fs (fds hnd j) (alloc_sizes hnd j))), fs)"
        using "1.IH" [OF True] ok by (simp add: snd_pid)
      moreover have "(\<forall>j. i + 1 \<le> j \<and> int j < fd_count hnd \<longrightarrow>
                 fst (check_pid env fs (fds hnd j) (alloc_sizes hnd j))) \<longleftrightarrow>
               (\<forall>j. i \<le> j \<and> int j < fd_count hnd \<longrightarrow>
                 fst (check_pid env fs (fds hnd j) (alloc_sizes hnd j)))"
      proof (intro iffI allI impI)
        fix j
        assume a: "\<forall>j. i + 1 \<le> j \<and> int j < fd_count hnd \<longrightarrow>
                 fst (check_pid env fs (fds hnd j) (alloc_sizes hnd j))"
          and b: "i \<le> j \<and> int j < fd_count hnd"
        show "fst (check_pid env fs (fds hnd j) (alloc_sizes hnd j))"
        proof (cases "j = i")
          case True
          with ok show ?thesis by simp
        next
          case False
          with b have "i + 1 \<le> j" by simp
          with a b show ?thesis by blast
        qed
      next
        fix j
        assume a: "\<forall>j. i \<le> j \<and> int j < fd_count hnd \<longrightarrow>
                 fst (check_pid env fs (fds hnd j) (alloc_sizes hnd j))"
          and b: "i + 1 \<le> j \<and> int j < fd_count hnd"
        then have "i \<le> j" by simp
        with a b show "fst (check_pid env fs (fds hnd j) (alloc_sizes hnd j))" by blast
      qed
      ultimately show ?thesis
        using True ok by (subst check_client_fds.simps) (simp add: snd_pid)
    qed
  qed
qed

lemma dmabuf_sanity_check_eq:
  "dmabuf_sanity_check env s handle =
     (fd_count (handles s handle) = int (std_find (fds (handles s handle)) 0 (MAX_FDS env) (- 1)) - 1 \<and>
      (\<forall>j. int j < fd_count (handles s handle) \<longrightarrow>
           fst (check_pid env (files s) (fds (handles s handle) j) (alloc_sizes (handles s handle) j))) \<and>
      fst (check_pid env (files s) (get_share_attr_fd env (handles s handle)) (attr_size (handles s handle))),
      s)"
  by (auto simp: dmabuf_sanity_check_def Let_def check_client_fds_eq check_pid_eq)

lemma upt_4: "[0..<4] = [0, 1, 2, 3]"
  by (simp add: upt_rec)

subsection \<open>The loops over the scratch slots\<close>

lemma zero_bases_bases:
  "bases (zero_bases env i hnd) j = (if i \<le> j \<and> j < MAX_BUFFER_FDS env then 0 else bases hnd j)"
proof (induction env i hnd rule: zero_bases.induct)
  case (1 env i hnd)
  show ?case
  proof (cases "i < MAX_BUFFER_FDS env")
    case True
    then show ?thesis
      using "1.IH" by (subst zero_bases.simps) auto
  next
    case False
    then show ?thesis by (subst zero_bases.simps) auto
  qed
qed

lemma validate_mapped_eq:
  "validate_mapped env data hnd i =
     (if \<forall>j. i \<le> j \<and> j < MAX_BUFFER_FDS env \<longrightarrow>
             data_bases data j = bases hnd j \<and> data_alloc_sizes data j = alloc_sizes hnd j
      then None else Some (- EINVAL))"
proof (induction env data hnd i rule: validate_mapped.induct)
  case (1 env data hnd i)
  show ?case
  proof (cases "i < MAX_BUFFER_FDS env")
    case False
    then show ?thesis by (subst validate_mapped.simps) auto
  next
    case True
    show ?thesis
    proof (cases "data_bases data i \<noteq> bases hnd i \<or> data_alloc_sizes data i \<noteq> alloc_sizes hnd i")
      case True
      with \<open>i < MAX_BUFFER_FDS env\<close> show ?thesis
        by (subst validate_mapped.simps) auto
    next
      case False
      then have here: "data_bases data i = bases hnd i" "data_alloc_sizes data i = alloc_sizes hnd i"
        by simp_all
      have "(\<forall>j. i + 1 \<le> j \<and> j < MAX_BUFFER_FDS env \<longrightarrow>
               data_bases data j = bases hnd j \<and> data_alloc_sizes data j = alloc_sizes hnd j) \<longleftrightarrow>
            (\<forall>j. i \<le> j \<and> j < MAX_BUFFER_FDS env \<longrightarrow>
               data_bases data j = bases hnd j \<and> data_alloc_sizes data j = alloc_sizes hnd j)"
      proof (intro iffI allI impI)
        fix j
        assume a: "\<forall>j. i + 1 \<le> j \<and> j < MAX_BUFFER_FDS env \<longrightarrow>
               data_bases data j = bases hnd j \<and> data_alloc_sizes data j = alloc_sizes hnd j"
          and b: "i \<le> j \<and> j < MAX_BUFFER_FDS env"
        show "data_bases data j = bases hnd j \<and> data_alloc_sizes data j = alloc_sizes hnd j"
        proof (cases "j = i")
          case True
          with here show ?thesis by simp
        next
          case False
          with b have "i + 1 \<le> j" by simp
          with a b show ?thesis by blast
        qed
      next
        fix j
        assume a: "\<forall>j. i \<le> j \<and> j < MAX_BUFFER_FDS env \<longrightarrow>
               data_bases data j = bases hnd j \<and> data_alloc_sizes data j = alloc_sizes hnd j"
          and b: "i + 1 \<le> j \<and> j < MAX_BUFFER_FDS env"
        then have "i \<le> j" by simp
        with a b show "data_bases data j = bases hnd j \<and> data_alloc_sizes data j = alloc_sizes hnd j"
          by blast
      qed
      with "1.IH" [OF True False] True False show ?thesis
        by (subst validate_mapped.simps) simp
    qed
  qed
qed

lemma validate_unmapped_eq:
  "validate_unmapped env data hnd i =
     (if \<forall>j. i \<le> j \<and> j < MAX_BUFFER_FDS env \<longrightarrow> bases hnd j = 0 \<and> data_bases data j = 0
      then None else Some (- EINVAL))"
proof (induction env data hnd i rule: validate_unmapped.induct)
  case (1 env data hnd i)
  show ?case
  proof (cases "i < MAX_BUFFER_FDS env")
    case False
    then show ?thesis by (subst validate_unmapped.simps) auto
  next
    case True
    show ?thesis
    proof (cases "bases hnd i \<noteq> 0 \<or> data_bases data i \<noteq> 0")
      case True
      with \<open>i < MAX_BUFFER_FDS env\<close> show ?thesis
        by (subst validate_unmapped.simps) auto
    next
      case False
      then have here: "bases hnd i = 0" "data_bases data i = 0"
        by simp_all
      have "(\<forall>j. i + 1 \<le> j \<and> j < MAX_BUFFER_FDS env \<longrightarrow> bases hnd j = 0 \<and> data_bases data j = 0) \<longleftrightarrow>
            (\<forall>j. i \<le> j \<and> j < MAX_BUFFER_FDS env \<longrightarrow> bases hnd j = 0 \<and> data_bases data j = 0)"
      proof (intro iffI allI impI)
        fix j
        assume a: "\<forall>j. i + 1 \<le> j \<and> j < MAX_BUFFER_FDS env \<longrightarrow> bases hnd j = 0 \<and> data_bases data j = 0"
          and b: "i \<le> j \<and> j < MAX_BUFFER_FDS env"
        show "bases hnd j = 0 \<and> data_bases data j = 0"
        proof (cases "j = i")
          case True
          with here show ?thesis by simp
        next
          case False
          with b have "i + 1 \<le> j" by simp
          with a b show ?thesis by blast
        qed
      next
        fix j
        assume a: "\<forall>j. i \<le> j \<and> j < MAX_BUFFER_FDS env \<longrightarrow> bases hnd j = 0 \<and> data_bases data j = 0"
          and b: "i + 1 \<le> j \<and> j < MAX_BUFFER_FDS env"
        then have "i \<le> j" by simp
        with a b show "bases hnd j = 0 \<and> data_bases data j = 0"
          by blast
      qed
      with "1.IH" [OF True False] True False show ?thesis
        by (subst validate_unmapped.simps) simp
    qed
  qed
qed

subsection \<open>The validator\<close>

lemma validate_locked_eq:
  "validate_locked env s handle = ((if validator_amended env s handle then 0 else - EINVAL), s)"
  by (auto simp: validate_locked_def validator_amended_def validate_mapped_eq validate_unmapped_eq
      split: option.splits)

lemma all_less_3: "(\<forall>i < (3::nat). P i) \<longleftrightarrow> P 0 \<and> P 1 \<and> P 2"
proof
  assume a: "\<forall>i < (3::nat). P i"
  then show "P 0 \<and> P 1 \<and> P 2" by simp
next
  assume b: "P 0 \<and> P 1 \<and> P 2"
  show "\<forall>i < (3::nat). P i"
  proof (intro allI impI)
    fix i :: nat
    assume "i < 3"
    then have "i = 0 \<or> i = 1 \<or> i = 2" by arith
    with b show "P i" by auto
  qed
qed

subsection \<open>Evaluating the example\<close>

lemma example_MAX_BUFFER_FDS: "MAX_BUFFER_FDS example_env = 3"
  by (simp add: example_env_def)

lemmas example_defs =
  example_env_def example_state_def example_handle_def registered_state_def mapped_state_def
  mapped_handle_def mapped_data_def resized_state_def scribbled_state_def zero_count_state_def
  registered_long_state_def long_state_def MappedData_default_def

subsection \<open>The copy loops, and the example step by step\<close>

lemma copy_bases_eq:
  "copy_bases env hnd i data =
     data\<lparr>data_bases := (\<lambda>j. if i \<le> j \<and> j < MAX_BUFFER_FDS env then bases hnd j else data_bases data j),
          data_alloc_sizes := (\<lambda>j. if i \<le> j \<and> j < MAX_BUFFER_FDS env then alloc_sizes hnd j
                                     else data_alloc_sizes data j)\<rparr>"
proof (induction env hnd i data rule: copy_bases.induct)
  case (1 env hnd i data)
  show ?case
  proof (cases "i < MAX_BUFFER_FDS env")
    case False
    then show ?thesis by (subst copy_bases.simps) (cases data, auto simp: fun_eq_iff)
  next
    case True
    then show ?thesis
      using "1.IH" by (subst copy_bases.simps) (auto simp: fun_eq_iff)
  qed
qed

lemma zero_bases_eq:
  "zero_bases env i hnd =
     hnd\<lparr>bases := (\<lambda>j. if i \<le> j \<and> j < MAX_BUFFER_FDS env then 0 else bases hnd j)\<rparr>"
proof (induction env i hnd rule: zero_bases.induct)
  case (1 env i hnd)
  show ?case
  proof (cases "i < MAX_BUFFER_FDS env")
    case False
    then show ?thesis by (subst zero_bases.simps) (cases hnd, auto simp: fun_eq_iff)
  next
    case True
    then show ?thesis
      using "1.IH" by (subst zero_bases.simps) (auto simp: fun_eq_iff)
  qed
qed

lemma example_retain: "retain example_env example_state 7 = (0, registered_state)"
  by (simp add: retain_def map_insert_def increment_ref_count_def zero_bases_eq example_defs fun_eq_iff)

lemma example_sanity: "dmabuf_sanity_check example_env registered_state 7 = (True, registered_state)"
  by (simp add: dmabuf_sanity_check_eq std_find.simps check_pid_eq os_length_def example_defs)

lemma example_map: "map_handle example_env registered_state 7 = (0, mapped_state)"
proof -
  have v: "validator_amended example_env registered_state 7"
    by (simp add: validator_amended_def example_MAX_BUFFER_FDS all_less_3 example_defs)
  have r: "buffer_map registered_state 7 = Some (MappedData_default\<lparr>ref_count := 1\<rparr>)"
    by (simp add: registered_state_def)
  show ?thesis
    by (simp add: map_handle_def validate_locked_eq v map_locked_def r example_sanity
        MappedData_default_def)
      (simp add: copy_bases_eq example_defs fun_eq_iff)
qed

lemma example_retain_again: "retain example_env registered_state 7 = (0, twice_state)"
  by (simp add: retain_def increment_ref_count_def twice_state_def example_defs)

lemma example_release_one: "release example_env twice_state 7 = (0, registered_state)"
proof -
  have v: "validator_amended example_env twice_state 7"
    by (simp add: validator_amended_def example_MAX_BUFFER_FDS all_less_3 twice_state_def example_defs)
  have r: "buffer_map twice_state 7 = Some (MappedData_default\<lparr>ref_count := 2\<rparr>)"
    by (simp add: twice_state_def)
  show ?thesis
    by (simp add: release_def validate_locked_eq v r Let_def)
      (simp add: twice_state_def example_defs)
qed

subsection \<open>What \<open>map\<close> does\<close>

lemma dmabuf_sanity_check_state: "dmabuf_sanity_check env s handle = (fst (dmabuf_sanity_check env s handle), s)"
  by (simp add: dmabuf_sanity_check_eq)

lemma map_locked_calls:
  "ion_map_calls (calls (snd (map_locked env s handle))) \<le> ion_map_calls (calls s) + 1"
proof (cases "buffer_map s handle")
  case None
  then show ?thesis by (simp add: map_locked_def)
next
  case (Some data)
  show ?thesis
  proof (cases "data_bases data 0 \<noteq> 0 \<or> \<not> fst (dmabuf_sanity_check env s handle)")
    case True
    with Some show ?thesis
      by (subst map_locked_def, subst dmabuf_sanity_check_state) auto
  next
    case False
    with Some show ?thesis
      by (subst map_locked_def, subst dmabuf_sanity_check_state)
        (auto simp: ion_map_calls_def Let_def split: prod.splits)
  qed
qed

lemma map_handle_calls:
  "ion_map_calls (calls (snd (map_handle env s handle))) \<le> ion_map_calls (calls s) + 1"
  using map_locked_calls [of env s handle]
  by (simp add: map_handle_def validate_locked_eq)

lemma map_handle_success:
  assumes "map_handle env s handle = (0, s1)"
  shows "validator_amended env s handle \<and>
         (\<exists>data0. buffer_map s handle = Some data0 \<and>
            (if data_bases data0 0 \<noteq> 0 then s1 = s
             else fst (dmabuf_sanity_check env s handle) \<and>
                  fst (mali_gralloc_ion_map env (handles s handle)) = 0 \<and>
                  s1 = s\<lparr>handles := (handles s)(handle := snd (mali_gralloc_ion_map env (handles s handle))),
                         calls := calls s @ [IonMap handle],
                         buffer_map := (buffer_map s)
                           (handle \<mapsto> copy_bases env (snd (mali_gralloc_ion_map env (handles s handle))) 0 data0)\<rparr>))"
proof -
  from assms have v: "validator_amended env s handle"
    by (auto simp: map_handle_def validate_locked_eq EINVAL_def split: if_splits)
  then obtain data0 where d: "buffer_map s handle = Some data0"
    by (auto simp: validator_amended_def split: option.splits)
  from assms v have l: "map_locked env s handle = (0, s1)"
    by (simp add: map_handle_def validate_locked_eq)
  show ?thesis
  proof (cases "data_bases data0 0 \<noteq> 0")
    case True
    with l d v show ?thesis by (simp add: map_locked_def)
  next
    case False
    with l d have "fst (dmabuf_sanity_check env s handle)"
      by (subst (asm) map_locked_def, subst (asm) dmabuf_sanity_check_state)
        (auto simp: EINVAL_def split: if_splits)
    with l d False v show ?thesis
      by (subst (asm) map_locked_def, subst (asm) dmabuf_sanity_check_state)
        (auto simp: Let_def split: prod.splits if_splits)
  qed
qed

subsection \<open>What each operation does to the count of a handle\<close>

lemma retain_refs:
  assumes "retain env s handle = (r, s')"
  shows "(r = 0 \<and> refs s' handle = Some (case refs s handle of None \<Rightarrow> 1 | Some c \<Rightarrow> c + 1)) \<or>
         (r \<noteq> 0 \<and> s' = s)"
  using assms
  by (auto simp: retain_def map_insert_def increment_ref_count_def refs_def MappedData_default_def
      EINVAL_def split: if_splits option.splits)

lemma retain_other:
  assumes "retain env s g = (r, s')" "g \<noteq> handle"
  shows "refs s' handle = refs s handle"
  using assms
  by (auto simp: retain_def map_insert_def increment_ref_count_def refs_def
      split: if_splits option.splits)

lemma release_refs:
  assumes "release env s handle = (r, s')"
  shows "(r = 0 \<and> (\<exists>c. refs s handle = Some c \<and> c \<noteq> 0 \<and>
                      refs s' handle = (if c - 1 = 0 then None else Some (c - 1)))) \<or>
         (r \<noteq> 0 \<and> s' = s)"
proof (cases "validator_amended env s handle")
  case False
  with assms show ?thesis
    by (auto simp: release_def validate_locked_eq EINVAL_def)
next
  case True
  then obtain data where d: "buffer_map s handle = Some data"
    by (auto simp: validator_amended_def split: option.splits)
  show ?thesis
  proof (cases "ref_count data = 0")
    case True
    with assms d \<open>validator_amended env s handle\<close> show ?thesis
      by (auto simp: release_def validate_locked_eq EINVAL_def)
  next
    case False
    with assms d \<open>validator_amended env s handle\<close> show ?thesis
      by (auto simp: release_def validate_locked_eq refs_def Let_def split: if_splits)
  qed
qed

lemma release_other:
  assumes "release env s g = (r, s')" "g \<noteq> handle"
  shows "refs s' handle = refs s handle"
proof (cases "validator_amended env s g")
  case False
  with assms show ?thesis
    by (auto simp: release_def validate_locked_eq EINVAL_def)
next
  case True
  with assms show ?thesis
    by (auto simp: release_def validate_locked_eq refs_def Let_def split: if_splits option.splits)
qed

lemma map_locked_refs:
  "refs (snd (map_locked env s g)) handle = refs s handle"
proof (cases "buffer_map s g")
  case None
  then show ?thesis by (simp add: map_locked_def)
next
  case (Some data)
  show ?thesis
  proof (cases "data_bases data 0 \<noteq> 0 \<or> \<not> fst (dmabuf_sanity_check env s g)")
    case True
    with Some show ?thesis
      by (subst map_locked_def, subst dmabuf_sanity_check_state) auto
  next
    case False
    with Some show ?thesis
      by (subst map_locked_def, subst dmabuf_sanity_check_state)
        (auto simp: refs_def Let_def copy_bases_eq split: prod.splits)
  qed
qed

lemma map_handle_refs:
  "refs (snd (map_handle env s g)) handle = refs s handle"
  using map_locked_refs [of env s g handle]
  by (simp add: map_handle_def validate_locked_eq)

lemma validate_refs:
  "refs (snd (validate env s g)) handle = refs s handle"
  by (simp add: validate_def validate_locked_eq)

lemma word64_of_nat_neq_0: "0 < n \<Longrightarrow> n < 2 ^ 64 \<Longrightarrow> (of_nat n :: 64 word) \<noteq> 0"
  by (rule of_nat_neq_0) simp_all

lemma word64_of_nat_pred: "0 < n \<Longrightarrow> (of_nat n :: 64 word) - 1 = of_nat (n - 1)"
  by (cases n) simp_all

lemma step_counted:
  assumes cnt: "counted s handle n"
      and bound: "n + 1 < 2 ^ 64"
      and step: "mali_gralloc_reference env s c = (r, s1)"
  shows "\<exists>n1. counted s1 handle n1 \<and>
           (if c = Retain handle \<and> r = 0 then n1 = n + 1
            else if c = Release handle \<and> r = 0 then 0 < n \<and> n1 = n - 1
            else n1 = n)"
proof (cases c)
  case (Retain g)
  with step have st: "retain env s g = (r, s1)" by simp
  show ?thesis
  proof (cases "g = handle")
    case False
    from retain_other [OF st False] cnt have "counted s1 handle n"
      by (simp add: counted_def)
    moreover from False Retain have "c \<noteq> Retain handle" "c \<noteq> Release handle" by simp_all
    ultimately show ?thesis by (intro exI [of _ n]) simp
  next
    case True
    with st have "retain env s handle = (r, s1)" by simp
    from retain_refs [OF this] show ?thesis
    proof
      assume a: "r = 0 \<and> refs s1 handle = Some (case refs s handle of None \<Rightarrow> 1 | Some c \<Rightarrow> c + 1)"
      have "counted s1 handle (n + 1)"
      proof (cases "n = 0")
        case True
        with cnt a show ?thesis by (simp add: counted_def)
      next
        case False
        with cnt a show ?thesis by (simp add: counted_def)
      qed
      moreover from a Retain True have "c = Retain handle \<and> r = 0" by simp
      ultimately show ?thesis by (intro exI [of _ "n + 1"]) simp
    next
      assume b: "r \<noteq> 0 \<and> s1 = s"
      with cnt have "counted s1 handle n" by simp
      moreover from Retain have "c \<noteq> Release handle" by simp
      ultimately show ?thesis using b by (intro exI [of _ n]) simp
    qed
  qed
next
  case (Release g)
  with step have st: "release env s g = (r, s1)" by simp
  show ?thesis
  proof (cases "g = handle")
    case False
    from release_other [OF st False] cnt have "counted s1 handle n"
      by (simp add: counted_def)
    moreover from False Release have "c \<noteq> Retain handle" "c \<noteq> Release handle" by simp_all
    ultimately show ?thesis by (intro exI [of _ n]) simp
  next
    case True
    with st have "release env s handle = (r, s1)" by simp
    from release_refs [OF this] show ?thesis
    proof
      assume a: "r = 0 \<and> (\<exists>c. refs s handle = Some c \<and> c \<noteq> 0 \<and>
                      refs s1 handle = (if c - 1 = 0 then None else Some (c - 1)))"
      then obtain w where w: "refs s handle = Some w" "w \<noteq> 0"
        "refs s1 handle = (if w - 1 = 0 then None else Some (w - 1))" by blast
      have pos: "0 < n"
      proof (rule ccontr)
        assume "\<not> 0 < n"
        with cnt w(1) show False by (simp add: counted_def)
      qed
      with cnt w(1) have weq: "w = of_nat n" by (simp add: counted_def)
      have pred: "w - 1 = of_nat (n - 1)"
        using pos weq by (simp only: word64_of_nat_pred)
      have "counted s1 handle (n - 1)"
      proof (cases "n - 1 = 0")
        case True
        with pred w(3) show ?thesis by (simp add: counted_def)
      next
        case False
        with bound have "(of_nat (n - 1) :: 64 word) \<noteq> 0"
          by (intro word64_of_nat_neq_0) simp_all
        with pred w(3) False show ?thesis by (simp add: counted_def)
      qed
      moreover from a Release True have "c = Release handle \<and> r = 0" by simp
      moreover from Release have "c \<noteq> Retain handle" by simp
      ultimately show ?thesis using pos by (intro exI [of _ "n - 1"]) simp
    next
      assume b: "r \<noteq> 0 \<and> s1 = s"
      with cnt have "counted s1 handle n" by simp
      moreover from Release have "c \<noteq> Retain handle" by simp
      ultimately show ?thesis using b by (intro exI [of _ n]) simp
    qed
  qed
next
  case (Map g)
  with step have "s1 = snd (map_handle env s g)" by simp
  with cnt have "counted s1 handle n"
    by (simp add: counted_def map_handle_refs)
  with Map show ?thesis by (intro exI [of _ n]) simp
next
  case (Validate g)
  with step have "s1 = snd (validate env s g)" by simp
  with cnt have "counted s1 handle n"
    by (simp add: counted_def validate_refs)
  with Validate show ?thesis by (intro exI [of _ n]) simp
qed

lemma successful_Nil: "successful c [] rs = 0"
  by (simp add: successful_def)

lemma successful_Cons:
  "successful c (c' # cs) (r # rs) = (if c' = c \<and> r = 0 then 1 else 0) + successful c cs rs"
  by (simp add: successful_def)

lemma run_counted:
  assumes "counted s handle n" "n + length cs < 2 ^ 64" "run env s cs = (rs, s')"
  shows "successful (Release handle) cs rs \<le> n + successful (Retain handle) cs rs \<and>
         counted s' handle (n + successful (Retain handle) cs rs - successful (Release handle) cs rs)"
  using assms
proof (induction cs arbitrary: s n rs s')
  case Nil
  then show ?case by (simp add: successful_Nil)
next
  case (Cons c cs)
  obtain r s1 where step: "mali_gralloc_reference env s c = (r, s1)"
    by (cases "mali_gralloc_reference env s c")
  obtain rs1 s2 where rest: "run env s1 cs = (rs1, s2)"
    by (cases "run env s1 cs")
  from Cons.prems(3) step rest have rs: "rs = r # rs1" and s': "s' = s2"
    by simp_all
  from Cons.prems(2) have b: "n + 1 < 2 ^ 64" by simp
  from step_counted [OF Cons.prems(1) b step] obtain n1 where
    n1: "counted s1 handle n1" and
    eff: "if c = Retain handle \<and> r = 0 then n1 = n + 1
          else if c = Release handle \<and> r = 0 then 0 < n \<and> n1 = n - 1
          else n1 = n" by blast
  from eff have "n1 \<le> n + 1" by (auto split: if_splits)
  with Cons.prems(2) have b1: "n1 + length cs < 2 ^ 64" by simp
  from Cons.IH [OF n1 b1 rest] have
    ih1: "successful (Release handle) cs rs1 \<le> n1 + successful (Retain handle) cs rs1" and
    ih2: "counted s2 handle (n1 + successful (Retain handle) cs rs1 - successful (Release handle) cs rs1)"
    by simp_all
  show ?case
  proof (cases "c = Retain handle \<and> r = 0")
    case True
    with eff ih1 ih2 show ?thesis
      unfolding rs s' successful_Cons by auto
  next
    case nr: False
    show ?thesis
    proof (cases "c = Release handle \<and> r = 0")
      case True
      with nr eff have "0 < n" "n1 = n - 1" by auto
      with True ih1 ih2 show ?thesis
        unfolding rs s' successful_Cons by auto
    next
      case False
      with nr eff have "n1 = n" by auto
      with nr False ih1 ih2 show ?thesis
        unfolding rs s' successful_Cons by auto
    qed
  qed
qed

section \<open>The claims\<close>

text \<open>
  C1. Start where the handle has no record and run any sequence of fewer than \<open>2^64\<close>
  calls of the four operations, on this handle or any other. With \<open>k\<close> the number of
  successful retains of the handle and \<open>j\<close> the number of its successful releases:
  \<open>j \<le> k\<close>, the handle has a record if and only if \<open>j < k\<close>, and the record's
  \<open>ref_count\<close> is \<open>k - j\<close>. (The counter is a \<open>uint64_t\<close>; the bound keeps it from
  wrapping.)
\<close>

theorem ref_count_balance:
  assumes "buffer_map s handle = None"
      and "length cs < 2 ^ 64"
      and "run env s cs = (rs, s')"
  shows "successful (Release handle) cs rs \<le> successful (Retain handle) cs rs \<and>
         (buffer_map s' handle \<noteq> None \<longleftrightarrow>
            successful (Release handle) cs rs < successful (Retain handle) cs rs) \<and>
         (\<forall>data. buffer_map s' handle = Some data \<longrightarrow>
            unat (ref_count data) =
              successful (Retain handle) cs rs - successful (Release handle) cs rs)"
proof -
  let ?k = "successful (Retain handle) cs rs"
  let ?j = "successful (Release handle) cs rs"
  from assms(1) have c0: "counted s handle 0"
    by (simp add: counted_def refs_def)
  from run_counted [OF c0 _ assms(3)] assms(2)
  have le: "?j \<le> ?k" and c: "counted s' handle (?k - ?j)" by simp_all
  have "?k \<le> length cs"
    unfolding successful_def
    by (rule order_trans [OF length_filter_le]) simp
  with assms(2) have small: "?k - ?j < 2 ^ 64" by simp
  show ?thesis
  proof (cases "?k - ?j = 0")
    case True
    with c le show ?thesis by (auto simp: counted_def refs_def)
  next
    case False
    with c obtain data where d: "buffer_map s' handle = Some data"
      "ref_count data = of_nat (?k - ?j)"
      by (auto simp: counted_def refs_def)
    from small have "unat (of_nat (?k - ?j) :: 64 word) = ?k - ?j"
      by (simp add: unat_of_nat)
    with d le False show ?thesis by auto
  qed
qed

theorem ref_count_balance_witness:
  "buffer_map example_state 7 = None \<and>
   run example_env example_state [Retain 7, Retain 7, Release 7] = ([0, 0, 0], registered_state) \<and>
   successful (Retain 7) [Retain 7, Retain 7, Release 7] [0, 0, 0] = 2 \<and>
   successful (Release 7) [Retain 7, Retain 7, Release 7] [0, 0, 0] = 1 \<and>
   (\<exists>data. buffer_map registered_state 7 = Some data \<and> unat (ref_count data) = 1)"
proof -
  have h1: "buffer_map example_state 7 = None"
    by (simp add: example_state_def)
  have h2: "length [Retain 7, Retain 7, Release 7] < 2 ^ 64"
    by simp
  have h3: "run example_env example_state [Retain 7, Retain 7, Release 7] = ([0, 0, 0], registered_state)"
    by (simp add: example_retain example_retain_again example_release_one)
  have k: "successful (Retain 7) [Retain 7, Retain 7, Release 7] [0, 0, 0] = 2"
    by (simp add: successful_def)
  have j: "successful (Release 7) [Retain 7, Retain 7, Release 7] [0, 0, 0] = 1"
    by (simp add: successful_def)
  have r: "buffer_map registered_state 7 = Some (MappedData_default\<lparr>ref_count := 1\<rparr>)"
    by (simp add: registered_state_def)
  from ref_count_balance [OF h1 h2 h3] r k j
  have "unat (ref_count (MappedData_default\<lparr>ref_count := 1\<rparr>)) = 1" by simp
  with h1 h3 k j r show ?thesis by simp
qed

text \<open>
  C2. For a well-formed handle with no record, \<open>retain\<close> returns success and leaves a
  record whose reference count is 1 (made with 0, incremented once) and whose other
  fields are zero, and every scratch slot \<open>bases[0..MAX_BUFFER_FDS)\<close> of the handle is
  zero; for an ill-formed handle \<open>retain\<close> returns \<open>-EINVAL\<close> and changes nothing.
\<close>

theorem retain_first:
  "(private_handle_validate env (handles s handle) < 0 \<longrightarrow> retain env s handle = (- EINVAL, s)) \<and>
   (0 \<le> private_handle_validate env (handles s handle) \<and> buffer_map s handle = None \<longrightarrow>
      (\<exists>s'. retain env s handle = (0, s') \<and>
            buffer_map s' handle = Some (MappedData_default\<lparr>ref_count := 1\<rparr>) \<and>
            (\<forall>i < MAX_BUFFER_FDS env. bases (handles s' handle) i = 0)))"
  by (auto simp: retain_def map_insert_def increment_ref_count_def zero_bases_bases
      MappedData_default_def)

theorem retain_first_witness:
  "retain example_env example_state 8 = (- EINVAL, example_state) \<and>
   (\<exists>s'. retain example_env example_state 7 = (0, s') \<and>
         buffer_map s' 7 = Some (MappedData_default\<lparr>ref_count := 1\<rparr>) \<and>
         bases (handles s' 7) 0 = 0 \<and> bases (handles s' 7) 1 = 0 \<and> bases (handles s' 7) 2 = 0)"
proof -
  have v8: "private_handle_validate example_env (handles example_state 8) < 0"
    by (simp add: example_env_def example_state_def example_handle_def)
  have v7: "0 \<le> private_handle_validate example_env (handles example_state 7)"
    by (simp add: example_env_def example_state_def example_handle_def)
  have n7: "buffer_map example_state 7 = None"
    by (simp add: example_state_def)
  have m: "MAX_BUFFER_FDS example_env = 3"
    by (simp add: example_env_def)
  from retain_first [of example_env example_state 8] v8
  have a: "retain example_env example_state 8 = (- EINVAL, example_state)" by blast
  from retain_first [of example_env example_state 7] v7 n7
  obtain s' where s': "retain example_env example_state 7 = (0, s')"
     "buffer_map s' 7 = Some (MappedData_default\<lparr>ref_count := 1\<rparr>)"
     "\<forall>i < MAX_BUFFER_FDS example_env. bases (handles s' 7) i = 0" by blast
  from s'(3) m
  have "bases (handles s' 7) 0 = 0 \<and> bases (handles s' 7) 1 = 0 \<and> bases (handles s' 7) 2 = 0"
    by simp
  with a s'(1,2) show ?thesis by blast
qed

text \<open>
  C3, as the specification words it, fails: with a descriptor left behind the first
  sentinel the count of non-sentinel entries is 3, not \<open>fd_count + 1 = 2\<close>, and the
  check passes all the same, since it counts up to the first sentinel only.
\<close>

theorem dmabuf_sanity_check_counterexample:
  "fst (dmabuf_sanity_check example_env tail_state 7) \<and>
   \<not> sanity_claimed example_env (files tail_state) (handles tail_state 7)"
proof -
  have "fst (dmabuf_sanity_check example_env tail_state 7)"
    by (simp add: dmabuf_sanity_check_eq std_find.simps check_pid_eq os_length_def
        tail_state_def tail_handle_def example_state_def example_handle_def example_env_def)
  moreover have "\<not> sanity_claimed example_env (files tail_state) (handles tail_state 7)"
    by (simp add: sanity_claimed_def upt_4
        tail_state_def tail_handle_def example_state_def example_handle_def example_env_def)
  ultimately show ?thesis by simp
qed

text \<open>
  C3, amended. Where no descriptor is \<open>2^63\<close> bytes long or longer and the advertised
  sizes the check reads are below \<open>2^63\<close>, \<open>dmabuf_sanity_check\<close> accepts the handle if
  and only if the prefix of \<open>fds\<close> before the first sentinel (among the \<open>MAX_FDS\<close> slots)
  has length \<open>fd_count + 1\<close>, the reported length of every client facing descriptor
  \<open>fds[i]\<close>, \<open>i < fd_count\<close>, is \<open>-1\<close> or lies in the closed range from \<open>alloc_sizes[i]\<close>
  to \<open>alloc_sizes[i] + PAGE_SIZE\<close>, and the same holds of the metadata descriptor and
  \<open>attr_size\<close>. The check leaves the state, the descriptors' offsets included, as it was.
\<close>

theorem dmabuf_sanity_check_amended:
  assumes sizes: "\<forall>fd f. files s fd = Some f \<longrightarrow> file_len f < 2 ^ 63"
      and allocs: "\<forall>i < nat (fd_count (handles s handle)).
                     uint (alloc_sizes (handles s handle) i) < 2 ^ 63"
      and attr: "uint (attr_size (handles s handle)) < 2 ^ 63"
  shows "dmabuf_sanity_check env s handle = (sanity_amended env (files s) (handles s handle), s)"
proof -
  let ?hnd = "handles s handle"
  have cnt: "std_find (fds ?hnd) 0 (MAX_FDS env) (- 1) =
             length (takeWhile (\<lambda>fd. fd \<noteq> - 1) (map (fds ?hnd) [0..<MAX_FDS env]))"
    using std_find_takeWhile [of 0 "MAX_FDS env" "fds ?hnd" "- 1"] by simp
  have client: "fst (check_pid env (files s) (fds ?hnd j) (alloc_sizes ?hnd j)) =
                length_within_page env (os_length (files s) (fds ?hnd j)) (alloc_sizes ?hnd j)"
    if "j < nat (fd_count ?hnd)" for j
    using that sizes allocs by (subst check_pid_within_page) auto
  have meta: "fst (check_pid env (files s) (get_share_attr_fd env ?hnd) (attr_size ?hnd)) =
              length_within_page env (os_length (files s) (get_share_attr_fd env ?hnd)) (attr_size ?hnd)"
    using sizes attr by (subst check_pid_within_page) auto
  have lt: "int j < fd_count ?hnd \<longleftrightarrow> j < nat (fd_count ?hnd)" for j
    by auto
  show ?thesis
    unfolding dmabuf_sanity_check_eq sanity_amended_def cnt meta lt
    using client by auto
qed

theorem dmabuf_sanity_check_amended_witness:
  "dmabuf_sanity_check example_env example_state 7 = (True, example_state) \<and>
   dmabuf_sanity_check example_env long_state 7 = (False, long_state)"
proof -
  have h1: "\<forall>fd f. files example_state fd = Some f \<longrightarrow> file_len f < 2 ^ 63"
    by (auto simp: example_state_def split: if_splits)
  have h2: "\<forall>i < nat (fd_count (handles example_state 7)).
              uint (alloc_sizes (handles example_state 7) i) < 2 ^ 63"
    by (simp add: example_state_def example_handle_def)
  have h3: "uint (attr_size (handles example_state 7)) < 2 ^ 63"
    by (simp add: example_state_def example_handle_def)
  have a1: "sanity_amended example_env (files example_state) (handles example_state 7)"
    by (simp add: sanity_amended_def upt_4 length_within_page_def os_length_def
        example_state_def example_handle_def example_env_def)
  have g1: "\<forall>fd f. files long_state fd = Some f \<longrightarrow> file_len f < 2 ^ 63"
    by (auto simp: long_state_def example_state_def split: if_splits)
  have g2: "\<forall>i < nat (fd_count (handles long_state 7)).
              uint (alloc_sizes (handles long_state 7) i) < 2 ^ 63"
    by (simp add: long_state_def example_state_def example_handle_def)
  have g3: "uint (attr_size (handles long_state 7)) < 2 ^ 63"
    by (simp add: long_state_def example_state_def example_handle_def)
  have a2: "\<not> sanity_amended example_env (files long_state) (handles long_state 7)"
    by (simp add: sanity_amended_def upt_4 length_within_page_def os_length_def
        long_state_def example_state_def example_handle_def example_env_def)
  show ?thesis
    using dmabuf_sanity_check_amended [OF h1 h2 h3, of example_env]
          dmabuf_sanity_check_amended [OF g1 g2 g3, of example_env] a1 a2
    by simp
qed

text \<open>
  C4. \<open>map\<close> is idempotent. After a successful \<open>map\<close> that leaves the record mapped and
  the handle well formed, \<open>map_locked\<close> returns at once, a second \<open>map\<close> returns success
  and the state after it is the state before it, so the addresses of the handle and of
  the record are the same after both, and the two maps together have asked the external
  mapper at most once.
\<close>

theorem map_idempotent:
  assumes first: "map_handle env s handle = (0, s1)"
      and mapped: "buffer_map s1 handle = Some data" "data_bases data 0 \<noteq> 0"
      and wf: "0 \<le> private_handle_validate env (handles s1 handle)"
  shows "map_handle env s1 handle = (0, s1) \<and> map_locked env s1 handle = (0, s1) \<and>
         ion_map_calls (calls s1) \<le> ion_map_calls (calls s) + 1"
proof -
  from mapped have l: "map_locked env s1 handle = (0, s1)"
    by (simp add: map_locked_def)
  from map_handle_success [OF first] obtain data0 where
    v: "validator_amended env s handle" and d: "buffer_map s handle = Some data0" and
    c: "if data_bases data0 0 \<noteq> 0 then s1 = s
        else s1 = s\<lparr>handles := (handles s)(handle := snd (mali_gralloc_ion_map env (handles s handle))),
                    calls := calls s @ [IonMap handle],
                    buffer_map := (buffer_map s)
                      (handle \<mapsto> copy_bases env (snd (mali_gralloc_ion_map env (handles s handle))) 0 data0)\<rparr>"
    by (auto split: if_splits)
  have "validator_amended env s1 handle"
  proof (cases "data_bases data0 0 \<noteq> 0")
    case True
    with c v show ?thesis by simp
  next
    case False
    with c mapped wf show ?thesis
      by (auto simp: validator_amended_def copy_bases_eq)
  qed
  with l have "map_handle env s1 handle = (0, s1)"
    by (simp add: map_handle_def validate_locked_eq)
  moreover from map_handle_calls [of env s handle] first
  have "ion_map_calls (calls s1) \<le> ion_map_calls (calls s) + 1" by simp
  ultimately show ?thesis using l by simp
qed

theorem map_idempotent_witness:
  "map_handle example_env registered_state 7 = (0, mapped_state) \<and>
   map_handle example_env mapped_state 7 = (0, mapped_state) \<and>
   map_locked example_env mapped_state 7 = (0, mapped_state) \<and>
   ion_map_calls (calls registered_state) = 0 \<and> ion_map_calls (calls mapped_state) = 1"
proof -
  have a2: "buffer_map mapped_state 7 = Some mapped_data"
    by (simp add: mapped_state_def)
  have a3: "data_bases mapped_data 0 \<noteq> 0"
    by (simp add: mapped_data_def)
  have a4: "0 \<le> private_handle_validate example_env (handles mapped_state 7)"
    by (simp add: example_defs)
  have c: "ion_map_calls (calls registered_state) = 0 \<and> ion_map_calls (calls mapped_state) = 1"
    by (simp add: ion_map_calls_def example_defs)
  from map_idempotent [OF example_map a2 a3 a4] example_map c
  show ?thesis by simp
qed

text \<open>
  C5, as the specification words it, fails: after a client overwrites the advertised
  size of a region the handle does not use, every region in use still agrees with the
  record, and the validator rejects the handle all the same: it compares every slot.
\<close>

theorem validate_locked_counterexample:
  "fst (validate_locked example_env resized_state 7) = - EINVAL \<and>
   validator_claimed example_env resized_state 7"
proof -
  have "\<not> validator_amended example_env resized_state 7"
    by (simp add: validator_amended_def example_MAX_BUFFER_FDS all_less_3 example_defs)
  then have "fst (validate_locked example_env resized_state 7) = - EINVAL"
    by (simp add: validate_locked_eq)
  moreover have "validator_claimed example_env resized_state 7"
    by (simp add: validator_claimed_def example_MAX_BUFFER_FDS all_less_3 example_defs)
  ultimately show ?thesis by simp
qed

text \<open>
  C5, amended. \<open>validate_locked\<close> returns success if and only if the handle is well
  formed, a record exists under its address, and: when the record is mapped
  (\<open>bases[0]\<close> of the record is not null), for every slot \<open>i\<close> below \<open>MAX_BUFFER_FDS\<close>,
  in use or not, the handle's \<open>bases[i]\<close> equals the record's and the handle's
  \<open>alloc_sizes[i]\<close> equals the record's; when the record is unmapped, every
  \<open>bases[i]\<close> of the handle is zero and every \<open>bases[i]\<close> of the record is null.
  Otherwise it returns \<open>-EINVAL\<close>. The state is unchanged either way.
\<close>

theorem validate_locked_amended:
  "validate_locked env s handle = ((if validator_amended env s handle then 0 else - EINVAL), s)"
  by (auto simp: validate_locked_def validator_amended_def validate_mapped_eq validate_unmapped_eq
      split: option.splits)

theorem validate_locked_amended_witness:
  "validate_locked example_env example_state 7 = (- EINVAL, example_state) \<and>
   validate_locked example_env registered_state 7 = (0, registered_state) \<and>
   validate_locked example_env mapped_state 7 = (0, mapped_state) \<and>
   validate_locked example_env resized_state 7 = (- EINVAL, resized_state)"
proof -
  have "\<not> validator_amended example_env example_state 7"
    by (simp add: validator_amended_def example_defs)
  moreover have "validator_amended example_env registered_state 7"
    by (simp add: validator_amended_def example_MAX_BUFFER_FDS all_less_3 example_defs)
  moreover have "validator_amended example_env mapped_state 7"
    by (simp add: validator_amended_def example_MAX_BUFFER_FDS all_less_3 example_defs)
  moreover have "\<not> validator_amended example_env resized_state 7"
    by (simp add: validator_amended_def example_MAX_BUFFER_FDS all_less_3 example_defs)
  ultimately show ?thesis
    using validate_locked_amended [of example_env example_state 7]
      validate_locked_amended [of example_env registered_state 7]
      validate_locked_amended [of example_env mapped_state 7]
      validate_locked_amended [of example_env resized_state 7]
    by simp
qed

text \<open>
  C6. The \<open>release\<close> that takes the count of a validated handle from 1 to 0 returns
  success and removes the record. It calls the mapper's unmap exactly when the record
  was mapped (\<open>bases[0]\<close> of the record not null). Mapped or not, it then looks at
  \<open>attr_base\<close> of the handle (as the mapper's unmap left it, where that ran): if it is
  not null the metadata region is unmapped with \<open>(attr_base, attr_size)\<close>, and in the
  end \<open>attr_base\<close> is null. No other handle and no other record is touched.
\<close>

theorem release_last:
  assumes ok: "fst (validate_locked env s handle) = 0"
      and rec: "buffer_map s handle = Some data"
      and one: "ref_count data = 1"
  shows "\<exists>s'. release env s handle = (0, s') \<and> buffer_map s' handle = None \<and>
           (let hnd = (if data_bases data 0 \<noteq> 0
                       then mali_gralloc_ion_unmap env (handles s handle) else handles s handle)
            in calls s' = calls s @ (if data_bases data 0 \<noteq> 0 then [IonUnmap handle] else []) @
                           (if attr_base hnd \<noteq> 0 then [Munmap (attr_base hnd) (attr_size hnd)] else []) \<and>
               handles s' handle = hnd\<lparr>attr_base := 0\<rparr>) \<and>
           (\<forall>h. h \<noteq> handle \<longrightarrow> handles s' h = handles s h \<and> buffer_map s' h = buffer_map s h)"
proof -
  from ok have v: "validate_locked env s handle = (0, s)"
    by (simp add: validate_locked_eq split: if_splits)
  show ?thesis
    using rec one by (simp add: release_def v Let_def)
qed

theorem release_last_witness:
  "(\<exists>s'. release example_env mapped_state 7 = (0, s') \<and> buffer_map s' 7 = None \<and>
         calls s' = [IonMap 7, IonUnmap 7] \<and> attr_base (handles s' 7) = 0) \<and>
   (\<exists>s'. release example_env meta_state 7 = (0, s') \<and> buffer_map s' 7 = None \<and>
         calls s' = [Munmap 36864 4096] \<and> attr_base (handles s' 7) = 0)"
proof -
  have "validator_amended example_env mapped_state 7"
    by (simp add: validator_amended_def example_MAX_BUFFER_FDS all_less_3 example_defs)
  then have a1: "fst (validate_locked example_env mapped_state 7) = 0"
    by (simp add: validate_locked_eq)
  have a2: "buffer_map mapped_state 7 = Some mapped_data"
    by (simp add: mapped_state_def)
  have a3: "ref_count mapped_data = 1"
    by (simp add: mapped_data_def)
  have "validator_amended example_env meta_state 7"
    by (simp add: validator_amended_def example_MAX_BUFFER_FDS all_less_3 meta_state_def example_defs)
  then have b1: "fst (validate_locked example_env meta_state 7) = 0"
    by (simp add: validate_locked_eq)
  have b2: "buffer_map meta_state 7 = Some (MappedData_default\<lparr>ref_count := 1\<rparr>)"
    by (simp add: meta_state_def registered_state_def)
  have b3: "ref_count (MappedData_default\<lparr>ref_count := 1\<rparr>) = 1"
    by simp
  from release_last [OF a1 a2 a3] obtain s1 where
    s1: "release example_env mapped_state 7 = (0, s1)" "buffer_map s1 7 = None"
      "calls s1 = [IonMap 7, IonUnmap 7]" "attr_base (handles s1 7) = 0"
    by (auto simp: Let_def example_defs)
  from release_last [OF b1 b2 b3] obtain s2 where
    s2: "release example_env meta_state 7 = (0, s2)" "buffer_map s2 7 = None"
      "calls s2 = [Munmap 36864 4096]" "attr_base (handles s2 7) = 0"
    by (auto simp: Let_def meta_state_def example_defs)
  from s1 s2 show ?thesis by blast
qed

text \<open>
  C7. \<open>release\<close> returns \<open>-EINVAL\<close> and leaves the whole state as it was (no count,
  address or \<open>attr_base\<close> changes, no record is removed or made, nothing is called)
  whenever the handle is ill-formed, has no record, or has a record whose count is 0.
\<close>

theorem release_invalid:
  assumes "private_handle_validate env (handles s handle) < 0 \<or>
           buffer_map s handle = None \<or>
           (\<exists>data. buffer_map s handle = Some data \<and> ref_count data = 0)"
  shows "release env s handle = (- EINVAL, s)"
proof (cases "validator_amended env s handle")
  case False
  then show ?thesis
    by (simp add: release_def validate_locked_eq EINVAL_def)
next
  case True
  then obtain data where d: "buffer_map s handle = Some data"
    and v: "0 \<le> private_handle_validate env (handles s handle)"
    by (auto simp: validator_amended_def split: option.splits)
  with assms have "ref_count data = 0" by auto
  with True d show ?thesis
    by (simp add: release_def validate_locked_eq)
qed

theorem release_invalid_witness:
  "release example_env example_state 8 = (- EINVAL, example_state) \<and>
   release example_env example_state 7 = (- EINVAL, example_state) \<and>
   release example_env zero_count_state 7 = (- EINVAL, zero_count_state) \<and>
   fst (validate_locked example_env zero_count_state 7) = 0"
proof -
  have a: "private_handle_validate example_env (handles example_state 8) < 0"
    by (simp add: example_defs)
  have b: "buffer_map example_state 7 = None"
    by (simp add: example_defs)
  have c: "\<exists>data. buffer_map zero_count_state 7 = Some data \<and> ref_count data = 0"
    by (simp add: example_defs)
  have "validator_amended example_env zero_count_state 7"
    by (simp add: validator_amended_def example_MAX_BUFFER_FDS all_less_3 example_defs)
  then have d: "fst (validate_locked example_env zero_count_state 7) = 0"
    by (simp add: validate_locked_eq)
  show ?thesis
    using release_invalid [where env = example_env and s = example_state and handle = 8]
      release_invalid [where env = example_env and s = example_state and handle = 7]
      release_invalid [where env = example_env and s = zero_count_state and handle = 7] a b c d
    by blast
qed

text \<open>
  C8. For a handle with a record in the unmapped state that \<open>dmabuf_sanity_check\<close>
  rejects, \<open>map\<close> returns \<open>-EINVAL\<close> and leaves the whole state as it was: the count, the
  record's addresses and the handle's scratch slots are what they were.
\<close>

theorem map_sanity_rejected:
  assumes "buffer_map s handle = Some data"
      and "data_bases data 0 = 0"
      and "\<not> fst (dmabuf_sanity_check env s handle)"
  shows "map_handle env s handle = (- EINVAL, s)"
proof (cases "validator_amended env s handle")
  case False
  then show ?thesis
    by (simp add: map_handle_def validate_locked_eq EINVAL_def)
next
  case True
  have "snd (dmabuf_sanity_check env s handle) = s"
    by (simp add: dmabuf_sanity_check_eq)
  with assms have "dmabuf_sanity_check env s handle = (False, s)"
    by (metis prod.collapse)
  with True assms(1,2) show ?thesis
    by (simp add: map_handle_def validate_locked_eq map_locked_def)
qed

theorem map_sanity_rejected_witness:
  "map_handle example_env registered_long_state 7 = (- EINVAL, registered_long_state) \<and>
   buffer_map registered_long_state 7 = Some (MappedData_default\<lparr>ref_count := 1\<rparr>) \<and>
   fst (validate_locked example_env registered_long_state 7) = 0"
proof -
  have a: "buffer_map registered_long_state 7 = Some (MappedData_default\<lparr>ref_count := 1\<rparr>)"
    by (simp add: example_defs)
  have b: "data_bases (MappedData_default\<lparr>ref_count := 1\<rparr>) 0 = 0"
    by (simp add: example_defs)
  have c: "\<not> fst (dmabuf_sanity_check example_env registered_long_state 7)"
    by (simp add: dmabuf_sanity_check_eq std_find.simps check_pid_eq os_length_def example_defs)
  have "validator_amended example_env registered_long_state 7"
    by (simp add: validator_amended_def example_MAX_BUFFER_FDS all_less_3 example_defs)
  then have d: "fst (validate_locked example_env registered_long_state 7) = 0"
    by (simp add: validate_locked_eq)
  from map_sanity_rejected [OF a b c] a d show ?thesis by simp
qed

text \<open>
  C9. \<open>validate\<close> returns success or \<open>-EINVAL\<close>, and the state after it is the state
  before it: every record, the membership of the table and every handle are unchanged.
\<close>

theorem validate_observes:
  "snd (validate env s handle) = s \<and>
   (fst (validate env s handle) = 0 \<or> fst (validate env s handle) = - EINVAL)"
  by (simp add: validate_def validate_locked_eq)

theorem validate_observes_witness:
  "validate example_env mapped_state 7 = (0, mapped_state) \<and>
   validate example_env resized_state 7 = (- EINVAL, resized_state)"
proof -
  have "validator_amended example_env mapped_state 7"
    by (simp add: validator_amended_def example_MAX_BUFFER_FDS all_less_3 example_defs)
  then have a: "fst (validate example_env mapped_state 7) = 0"
    by (simp add: validate_def validate_locked_eq)
  have "\<not> validator_amended example_env resized_state 7"
    by (simp add: validator_amended_def example_MAX_BUFFER_FDS all_less_3 example_defs)
  then have b: "fst (validate example_env resized_state 7) = - EINVAL"
    by (simp add: validate_def validate_locked_eq)
  from a b validate_observes [of example_env mapped_state 7]
    validate_observes [of example_env resized_state 7]
  show ?thesis by (metis prod.collapse)
qed

text \<open>
  C10. \<open>map\<close> runs the whole validator first: for a handle with a record in the unmapped
  state and a scratch slot \<open>bases[i]\<close>, \<open>i < MAX_BUFFER_FDS\<close>, that is not zero, \<open>map\<close>
  returns \<open>-EINVAL\<close> with the state unchanged, the log of external calls included; the
  result is the validator's, whatever the sanity check and the mapper would have done.
\<close>

theorem map_tampered_scratch:
  assumes "buffer_map s handle = Some data"
      and "data_bases data 0 = 0"
      and "\<exists>i < MAX_BUFFER_FDS env. bases (handles s handle) i \<noteq> 0"
  shows "map_handle env s handle = (- EINVAL, s) \<and>
         map_handle env s handle = validate_locked env s handle"
proof -
  from assms have "\<not> validator_amended env s handle"
    by (auto simp: validator_amended_def)
  then show ?thesis
    by (simp add: map_handle_def validate_locked_eq EINVAL_def)
qed

theorem map_tampered_scratch_witness:
  "map_handle example_env scribbled_state 7 = (- EINVAL, scribbled_state) \<and>
   buffer_map scribbled_state 7 = Some (MappedData_default\<lparr>ref_count := 1\<rparr>) \<and>
   fst (dmabuf_sanity_check example_env scribbled_state 7) \<and>
   fst (mali_gralloc_ion_map example_env (handles scribbled_state 7)) = 0"
proof -
  have a: "buffer_map scribbled_state 7 = Some (MappedData_default\<lparr>ref_count := 1\<rparr>)"
    by (simp add: example_defs)
  have b: "data_bases (MappedData_default\<lparr>ref_count := 1\<rparr>) 0 = 0"
    by (simp add: example_defs)
  have "bases (handles scribbled_state 7) 1 \<noteq> 0" "(1::nat) < MAX_BUFFER_FDS example_env"
    by (simp_all add: example_defs)
  then have c: "\<exists>i < MAX_BUFFER_FDS example_env. bases (handles scribbled_state 7) i \<noteq> 0"
    by blast
  have d: "fst (dmabuf_sanity_check example_env scribbled_state 7)"
    by (simp add: dmabuf_sanity_check_eq std_find.simps check_pid_eq os_length_def example_defs)
  have e: "fst (mali_gralloc_ion_map example_env (handles scribbled_state 7)) = 0"
    by (simp add: example_defs)
  from map_tampered_scratch [OF a b c] a d e show ?thesis by simp
qed

end
